theory Spec2Isabelle
  imports Complex_Main "HOL-Library.Sublist"
begin

section \<open>Messages\<close>

text \<open>
  The notebook \<open>Reducing Multi-Turn Confusion with LlamaIndex Memory\<close> defines the class
  \<open>CondensedMemoryBlock\<close> with the two methods \<open>_aget\<close> and \<open>_aput\<close>. The messages
  it consumes are the library's \<open>ChatMessage\<close> objects: a role, a list of content
  blocks and a dictionary \<open>additional_kwargs\<close>.
\<close>

text \<open>
  Modelled from the spec: the role enumeration \<open>MessageRole\<close> is declared by the library and
  is not part of the notebook; the spec lists the roles user, assistant, tool and system.
  \<open>role_str\<close> is what the f-string \<open>{message.role}\<close> produces, as printed in the
  notebook's recorded output (\<open>MessageRole.USER\<close>, \<open>MessageRole.ASSISTANT\<close>).
\<close>

datatype MessageRole = SYSTEM | USER | ASSISTANT | TOOL

fun role_str :: "MessageRole \<Rightarrow> string" where
  "role_str SYSTEM = ''MessageRole.SYSTEM''"
| "role_str USER = ''MessageRole.USER''"
| "role_str ASSISTANT = ''MessageRole.ASSISTANT''"
| "role_str TOOL = ''MessageRole.TOOL''"

text \<open>
  A content block is a \<open>TextBlock\<close> carrying text, or a block of any other class
  (image, audio, document, ...), whose payload \<open>_aput\<close> never reads.
\<close>

datatype ContentBlock = TextBlock (block_text: string) | OtherBlock string

fun isinstance_TextBlock :: "ContentBlock \<Rightarrow> bool" where
  "isinstance_TextBlock (TextBlock t) = True"
| "isinstance_TextBlock (OtherBlock p) = False"

text \<open>
  \<open>additional_kwargs\<close> is a Python dictionary with string keys: an association list in
  insertion order. The values have an arbitrary type \<open>'v\<close>.
\<close>

record 'v ChatMessage =
  role :: MessageRole
  blocks :: "ContentBlock list"
  additional_kwargs :: "(string \<times> 'v) list"

section \<open>Strings\<close>

text \<open>Python's \<open>sep.join(xs)\<close>.\<close>

fun join :: "string \<Rightarrow> string list \<Rightarrow> string" where
  "join sep [] = []"
| "join sep [x] = x"
| "join sep (x # y # ys) = x @ sep @ join sep (y # ys)"

text \<open>
  Python's \<open>str\<close> of a dictionary: \<open>{k1: v1, k2: v2}\<close> with every key and value
  shown by \<open>repr\<close>. The two \<open>repr\<close> functions belong to the Python runtime and are
  parameters: \<open>kr\<close> for the string keys, \<open>vr\<close> for the values.
\<close>

definition dict_str :: "(string \<Rightarrow> string) \<Rightarrow> ('v \<Rightarrow> string) \<Rightarrow> (string \<times> 'v) list \<Rightarrow> string" where
  "dict_str kr vr d = ''{'' @ join '', '' (map (\<lambda>(key, val). kr key @ '': '' @ vr val) d) @ ''}''"

section \<open>Rendering one message\<close>

text \<open>
  The body of the \<open>for\<close> loop of \<open>_aput\<close>, up to the \<open>append\<close>: the variable
  \<open>memory_str\<close> is extended step by step.
\<close>

definition memory_str :: "(string \<Rightarrow> string) \<Rightarrow> ('v \<Rightarrow> string) \<Rightarrow> 'v ChatMessage \<Rightarrow> string" where
  "memory_str kr vr message =
    (let text_contents = join ''\<newline>'' (map block_text (filter isinstance_TextBlock (blocks message)));
         memory_str0 = ''<message role='' @ role_str (role message) @ ''>'';
         memory_str1 = (if text_contents \<noteq> [] then memory_str0 @ ''\<newline>'' @ text_contents
                        else memory_str0);
         kwargs = filter (\<lambda>(key, val). key \<noteq> ''session_id'') (additional_kwargs message);
         memory_str2 = (if kwargs \<noteq> [] then memory_str1 @ ''\<newline>('' @ dict_str kr vr kwargs @ '')''
                        else memory_str1)
     in memory_str2 @ ''\<newline></message>'')"

section \<open>The memory block\<close>

datatype error = TokenizationError string

text \<open>
  The fields of \<open>CondensedMemoryBlock\<close>. The field \<open>tokenizer\<close> stands for
  \<open>len(self.tokenizer.encode(message))\<close>: the number of tokens of a string, or the
  exception the external tokenizer raises. \<open>token_limit\<close> is a Python \<open>int\<close> with
  no constraint on its sign.
\<close>

record CondensedMemoryBlock =
  current_memory :: "string list"
  token_limit :: int
  tokenizer :: "string \<Rightarrow> error + nat"

text \<open>\<open>_aget\<close>: the output and the block after the call.\<close>

definition aget :: "CondensedMemoryBlock \<Rightarrow> string \<times> CondensedMemoryBlock" where
  "aget self = (join ''\<newline>'' (current_memory self), self)"

text \<open>
  \<open>sum(len(self.tokenizer.encode(message)) for message in self.current_memory)\<close>: the
  generator is consumed from the left, and the first exception ends the sum.
\<close>

fun message_length :: "(string \<Rightarrow> error + nat) \<Rightarrow> string list \<Rightarrow> error + nat" where
  "message_length tok [] = Inr 0"
| "message_length tok (message # rest) =
     (case tok message of
        Inl e \<Rightarrow> Inl e
      | Inr n \<Rightarrow> (case message_length tok rest of
                    Inl e \<Rightarrow> Inl e
                  | Inr s \<Rightarrow> Inr (n + s)))"

text \<open>
  A call of \<open>_aput\<close> ends in one of three ways: it returns, it raises, or it never ends.
  The result is \<open>None\<close> when it never ends, and otherwise the pair of how it ended
  (\<open>Inr ()\<close> for a return, \<open>Inl e\<close> for the exception \<open>e\<close>) and the block as the call
  left it: the block is mutated in place, so its state survives an exception.
\<close>

type_synonym outcome = "(error + unit) \<times> CondensedMemoryBlock"

text \<open>
  The \<open>while\<close> loop of \<open>_aput\<close> together with the sum computed before it: compute the
  total, and while it exceeds \<open>token_limit\<close> replace \<open>current_memory\<close> by
  \<open>current_memory[1:]\<close> and compute the total again.
\<close>

partial_function (option) aput_evict :: "CondensedMemoryBlock \<Rightarrow> outcome option" where
  "aput_evict self =
     (case message_length (tokenizer self) (current_memory self) of
        Inl e \<Rightarrow> Some (Inl e, self)
      | Inr n \<Rightarrow>
          if int n > token_limit self
          then aput_evict (self\<lparr>current_memory := drop 1 (current_memory self)\<rparr>)
          else Some (Inr (), self))"

text \<open>The \<open>for\<close> loop of \<open>_aput\<close>: one \<open>append\<close> for each message, in order.\<close>

fun aput_append :: "(string \<Rightarrow> string) \<Rightarrow> ('v \<Rightarrow> string) \<Rightarrow> CondensedMemoryBlock \<Rightarrow> 'v ChatMessage list
    \<Rightarrow> CondensedMemoryBlock" where
  "aput_append kr vr self [] = self"
| "aput_append kr vr self (message # messages) =
     aput_append kr vr (self\<lparr>current_memory := current_memory self @ [memory_str kr vr message]\<rparr>) messages"

definition aput :: "(string \<Rightarrow> string) \<Rightarrow> ('v \<Rightarrow> string) \<Rightarrow> CondensedMemoryBlock \<Rightarrow> 'v ChatMessage list
    \<Rightarrow> outcome option" where
  "aput kr vr self messages = aput_evict (aput_append kr vr self messages)"

text \<open>
  The same loop with a bound on the number of iterations and a log of the strings it
  removes, in the order of their removal. \<open>None\<close> means that the bound was reached.
\<close>

fun evict_steps :: "nat \<Rightarrow> CondensedMemoryBlock \<Rightarrow> (outcome \<times> string list) option" where
  "evict_steps fuel self =
     (case message_length (tokenizer self) (current_memory self) of
        Inl e \<Rightarrow> Some ((Inl e, self), [])
      | Inr n \<Rightarrow>
          if int n > token_limit self
          then (case fuel of
                  0 \<Rightarrow> None
                | Suc fuel' \<Rightarrow>
                    (case evict_steps fuel' (self\<lparr>current_memory := drop 1 (current_memory self)\<rparr>) of
                       None \<Rightarrow> None
                     | Some (res, removed) \<Rightarrow> Some (res, take 1 (current_memory self) @ removed)))
          else Some ((Inr (), self), []))"

declare evict_steps.simps [simp del]

declare aput_evict.simps [code]

section \<open>The canonical form, in the words of the specification\<close>

text \<open>
  The specification describes the string stored for a message as four parts in a row: a
  role tag, the text segments of the message joined by newlines (when that text is not
  empty), the auxiliary data without the transport-only key \<open>session_id\<close> (when any key
  remains), and the closing tag. \<open>canonical_form\<close> is written from that description; it is
  compared with \<open>memory_str\<close>, which is written from the code.
\<close>

definition role_tag :: "MessageRole \<Rightarrow> string" where
  "role_tag r = concat [''<message role='', role_str r, ''>'']"

definition text_segments :: "'v ChatMessage \<Rightarrow> string list" where
  "text_segments m = [block_text b. b \<leftarrow> blocks m, isinstance_TextBlock b]"

definition auxiliary_data :: "'v ChatMessage \<Rightarrow> (string \<times> 'v) list" where
  "auxiliary_data m = [(k, v). (k, v) \<leftarrow> additional_kwargs m, k \<noteq> ''session_id'']"

definition canonical_form :: "(string \<Rightarrow> string) \<Rightarrow> ('v \<Rightarrow> string) \<Rightarrow> 'v ChatMessage \<Rightarrow> string" where
  "canonical_form kr vr m =
     concat ([role_tag (role m)]
       @ (if join ''\<newline>'' (text_segments m) = [] then []
          else [''\<newline>'', join ''\<newline>'' (text_segments m)])
       @ (if auxiliary_data m = [] then []
          else [''\<newline>('', dict_str kr vr (auxiliary_data m), '')''])
       @ [''\<newline></message>''])"

section \<open>The session around the block\<close>

text \<open>
  Modelled from the spec: the class \<open>Memory\<close> of the library (its live window, its
  \<open>flush\<close> and its \<open>render\<close>) is not part of the notebook, which only configures and
  calls it. The definitions of this section follow sections 3 and 4.1 of the
  specification. The ratio is a rational number, so that the threshold
  \<open>chat_history_token_ratio \<times> token_limit\<close> is exact.
\<close>

record 'v Session =
  live_window :: "'v ChatMessage list"
  condensation :: CondensedMemoryBlock
  chat_history_token_ratio :: rat

definition threshold :: "'v Session \<Rightarrow> rat" where
  "threshold s = chat_history_token_ratio s * of_int (token_limit (condensation s))"

text \<open>
  Modelled from the spec: the token cost of a turn is the token cost of its rendered
  string form, and the cost of the live window is the sum over its turns.
\<close>

definition window_cost :: "(string \<Rightarrow> string) \<Rightarrow> ('v \<Rightarrow> string) \<Rightarrow> 'v Session \<Rightarrow> error + nat" where
  "window_cost kr vr s =
     message_length (tokenizer (condensation s)) (map (memory_str kr vr) (live_window s))"

definition under_budget :: "(string \<Rightarrow> string) \<Rightarrow> ('v \<Rightarrow> string) \<Rightarrow> 'v Session \<Rightarrow> bool" where
  "under_budget kr vr s =
     (case window_cost kr vr s of Inl e \<Rightarrow> False | Inr c \<Rightarrow> of_nat c \<le> threshold s)"

text \<open>Modelled from the spec: \<open>append\<close> adds the turns to the live window, in order.\<close>

definition append_turns :: "'v Session \<Rightarrow> 'v ChatMessage list \<Rightarrow> 'v Session" where
  "append_turns s turns = s\<lparr>live_window := live_window s @ turns\<rparr>"

text \<open>
  Modelled from the spec: \<open>flush\<close> moves turns one at a time, oldest first, until the
  cost of the live window is at or below the threshold or the window is empty.
  \<open>flush_split\<close> returns the turns that move and the turns that stay.
\<close>

fun flush_split :: "('v ChatMessage \<Rightarrow> string) \<Rightarrow> (string \<Rightarrow> error + nat) \<Rightarrow> rat
    \<Rightarrow> 'v ChatMessage list \<Rightarrow> error + ('v ChatMessage list \<times> 'v ChatMessage list)" where
  "flush_split rendered tok thr [] = Inr ([], [])"
| "flush_split rendered tok thr (t # ts) =
     (case message_length tok (map rendered (t # ts)) of
        Inl e \<Rightarrow> Inl e
      | Inr c \<Rightarrow>
          if of_nat c \<le> thr then Inr ([], t # ts)
          else (case flush_split rendered tok thr ts of
                  Inl e \<Rightarrow> Inl e
                | Inr (moved, kept) \<Rightarrow> Inr (t # moved, kept)))"

text \<open>
  Modelled from the spec: the moved turns are handed to the block's \<open>_aput\<close>, which
  renders and stores them. A tokenizer failure aborts the flush: the live window stays as
  it was, and the block stays as \<open>_aput\<close> left it.
\<close>

definition flush :: "(string \<Rightarrow> string) \<Rightarrow> ('v \<Rightarrow> string) \<Rightarrow> 'v Session
    \<Rightarrow> ((error + unit) \<times> 'v Session) option" where
  "flush kr vr s =
     (case flush_split (memory_str kr vr) (tokenizer (condensation s)) (threshold s) (live_window s) of
        Inl e \<Rightarrow> Some (Inl e, s)
      | Inr (moved, kept) \<Rightarrow>
          (case aput kr vr (condensation s) moved of
             None \<Rightarrow> None
           | Some (Inl e, b) \<Rightarrow> Some (Inl e, s\<lparr>condensation := b\<rparr>)
           | Some (Inr u, b) \<Rightarrow> Some (Inr u, s\<lparr>live_window := kept, condensation := b\<rparr>)))"

text \<open>
  Modelled from the spec: \<open>render\<close> gives the text of the block, when it is not empty, as
  one synthetic turn, followed by the turns of the live window.
\<close>

datatype 'v rendered_turn = Condensed string | Live "'v ChatMessage"

definition render :: "'v Session \<Rightarrow> 'v rendered_turn list" where
  "render s =
     (let condensed = fst (aget (condensation s))
      in (if condensed \<noteq> [] then [Condensed condensed] else []) @ map Live (live_window s))"

section \<open>The notebook's example\<close>

text \<open>
  The list \<open>initial_messages\<close> of the notebook. \<open>ChatMessage(role=r, content=c)\<close>
  builds a message with the single text block \<open>c\<close> and no additional keyword arguments.
\<close>

definition chat_message :: "MessageRole \<Rightarrow> string \<Rightarrow> 'v ChatMessage" where
  "chat_message r content = \<lparr>role = r, blocks = [TextBlock content], additional_kwargs = []\<rparr>"

definition initial_messages :: "'v ChatMessage list" where
  "initial_messages =
     [chat_message USER ''Hello! My name is Logan'',
      chat_message ASSISTANT ''Hello! How can I help you?'',
      chat_message USER ''What is the capital of France?'',
      chat_message ASSISTANT ''The capital of France is Paris'']"

text \<open>
  Two stand-ins for the external tokenizer, used in the examples: one token for each
  character, and a tokenizer that fails on every string.
\<close>

definition char_tokenizer :: "string \<Rightarrow> error + nat" where
  "char_tokenizer = Inr \<circ> length"

definition failing_tokenizer :: "string \<Rightarrow> error + nat" where
  "failing_tokenizer = Inl \<circ> TokenizationError"

section \<open>Properties of the eviction loop\<close>

lemma aput_append_memory:
  "aput_append kr vr self messages =
     self\<lparr>current_memory := current_memory self @ map (memory_str kr vr) messages\<rparr>"
  by (induction messages arbitrary: self) simp_all

lemma message_length_Inl:
  "message_length tok xs = Inl e \<Longrightarrow> \<exists>m \<in> set xs. tok m = Inl e"
  by (induction xs) (auto split: sum.splits)

lemma evict_steps_raise:
  "message_length (tokenizer self) (current_memory self) = Inl e \<Longrightarrow>
     evict_steps fuel self = Some ((Inl e, self), [])"
  by (simp add: evict_steps.simps)

lemma evict_steps_stop:
  "message_length (tokenizer self) (current_memory self) = Inr n \<Longrightarrow> int n \<le> token_limit self \<Longrightarrow>
     evict_steps fuel self = Some ((Inr (), self), [])"
  by (simp add: evict_steps.simps)

lemma evict_steps_zero:
  "message_length (tokenizer self) (current_memory self) = Inr n \<Longrightarrow> token_limit self < int n \<Longrightarrow>
     evict_steps 0 self = None"
  by (simp add: evict_steps.simps)

lemma evict_steps_Suc:
  "message_length (tokenizer self) (current_memory self) = Inr n \<Longrightarrow> token_limit self < int n \<Longrightarrow>
     evict_steps (Suc fuel) self =
       (case evict_steps fuel (self\<lparr>current_memory := drop 1 (current_memory self)\<rparr>) of
          None \<Rightarrow> None
        | Some (res, removed) \<Rightarrow> Some (res, take 1 (current_memory self) @ removed))"
  by (subst evict_steps.simps) simp

lemma evict_steps_cases:
  assumes "evict_steps fuel self = Some ((r, self'), removed)"
  obtains
    (raise) e where "message_length (tokenizer self) (current_memory self) = Inl e"
      "r = Inl e" "self' = self" "removed = []"
  | (stop) n where "message_length (tokenizer self) (current_memory self) = Inr n"
      "int n \<le> token_limit self" "r = Inr ()" "self' = self" "removed = []"
  | (step) n fuel' removed' where "message_length (tokenizer self) (current_memory self) = Inr n"
      "token_limit self < int n" "fuel = Suc fuel'"
      "evict_steps fuel' (self\<lparr>current_memory := drop 1 (current_memory self)\<rparr>)
         = Some ((r, self'), removed')"
      "removed = take 1 (current_memory self) @ removed'"
proof (cases "message_length (tokenizer self) (current_memory self)")
  case (Inl e)
  from evict_steps_raise [OF Inl, of fuel] assms
  have "r = Inl e" "self' = self" "removed = []" by simp_all
  with Inl show ?thesis by (rule raise)
next
  case (Inr n)
  show ?thesis
  proof (cases "int n \<le> token_limit self")
    case True
    from evict_steps_stop [OF Inr True, of fuel] assms
    have "r = Inr ()" "self' = self" "removed = []" by simp_all
    with Inr True show ?thesis by (rule stop)
  next
    case False
    then have gt: "token_limit self < int n" by simp
    show ?thesis
    proof (cases fuel)
      case 0
      with evict_steps_zero [OF Inr gt] assms show ?thesis by simp
    next
      case (Suc fuel')
      let ?s = "self\<lparr>current_memory := drop 1 (current_memory self)\<rparr>"
      from evict_steps_Suc [OF Inr gt, of fuel'] assms Suc
      have eq: "(case evict_steps fuel' ?s of None \<Rightarrow> None
                 | Some (res, removed) \<Rightarrow> Some (res, take 1 (current_memory self) @ removed))
                = Some ((r, self'), removed)"
        by simp
      then obtain removed' where
        "evict_steps fuel' ?s = Some ((r, self'), removed')"
        "removed = take 1 (current_memory self) @ removed'"
        by (cases "evict_steps fuel' ?s") auto
      with Inr gt Suc show ?thesis by (rule step)
    qed
  qed
qed

lemma evict_steps_sound:
  "evict_steps fuel self = Some (y, removed) \<Longrightarrow> aput_evict self = Some y"
proof (induction fuel arbitrary: self removed)
  case 0
  obtain r self' where y: "y = (r, self')" by (cases y)
  from 0 [unfolded y] show ?case
    by (cases rule: evict_steps_cases) (subst aput_evict.simps, simp add: y)+
next
  case (Suc fuel)
  obtain r self' where y: "y = (r, self')" by (cases y)
  from Suc.prems [unfolded y] show ?case
  proof (cases rule: evict_steps_cases)
    case (step n fuel' removed')
    then have "aput_evict (self\<lparr>current_memory := drop 1 (current_memory self)\<rparr>) = Some y"
      using Suc.IH y by simp
    with step show ?thesis by (subst aput_evict.simps) simp
  qed (subst aput_evict.simps, simp add: y)+
qed

lemma evict_steps_complete:
  assumes ret: "aput_evict self = Some y"
  shows "\<exists>fuel removed. evict_steps fuel self = Some (y, removed)"
proof (rule aput_evict.raw_induct [OF _ ret])
  fix evict :: "CondensedMemoryBlock \<Rightarrow> outcome option" and b :: CondensedMemoryBlock and r :: outcome
  assume IH: "\<And>x z. evict x = Some z \<Longrightarrow> \<exists>fuel removed. evict_steps fuel x = Some (z, removed)"
  assume eq: "(case message_length (tokenizer b) (current_memory b) of
        Inl e \<Rightarrow> Some (Inl e, b)
      | Inr n \<Rightarrow>
          if int n > token_limit b
          then evict (b\<lparr>current_memory := drop 1 (current_memory b)\<rparr>)
          else Some (Inr (), b)) = Some r"
  show "\<exists>fuel removed. evict_steps fuel b = Some (r, removed)"
  proof (cases "message_length (tokenizer b) (current_memory b)")
    case (Inl e)
    with eq have "evict_steps 0 b = Some (r, [])" by (auto simp: evict_steps_raise)
    then show ?thesis by blast
  next
    case (Inr n)
    show ?thesis
    proof (cases "int n > token_limit b")
      case True
      with Inr eq have "evict (b\<lparr>current_memory := drop 1 (current_memory b)\<rparr>) = Some r"
        by simp
      from IH [OF this] obtain fuel removed where
        "evict_steps fuel (b\<lparr>current_memory := drop 1 (current_memory b)\<rparr>) = Some (r, removed)"
        by blast
      with Inr True have "evict_steps (Suc fuel) b = Some (r, take 1 (current_memory b) @ removed)"
        by (simp add: evict_steps_Suc)
      then show ?thesis by blast
    next
      case False
      with Inr eq have "evict_steps 0 b = Some (r, [])" by (auto simp: evict_steps_stop)
      then show ?thesis by blast
    qed
  qed
qed

lemma evict_steps_fields:
  "evict_steps fuel self = Some ((r, self'), removed) \<Longrightarrow>
     token_limit self' = token_limit self \<and> tokenizer self' = tokenizer self"
proof (induction fuel arbitrary: self removed)
  case 0
  then show ?case by (cases rule: evict_steps_cases) simp_all
next
  case (Suc fuel)
  from Suc.prems show ?case
  proof (cases rule: evict_steps_cases)
    case (step n fuel' removed')
    with Suc.IH [of "self\<lparr>current_memory := drop 1 (current_memory self)\<rparr>" removed']
    show ?thesis by simp
  qed simp_all
qed

lemma evict_steps_shape:
  "evict_steps fuel self = Some ((r, self'), removed) \<Longrightarrow>
     self' = self\<lparr>current_memory := drop (length removed) (current_memory self)\<rparr> \<and>
     removed = take (length removed) (current_memory self) \<and> length removed \<le> fuel"
proof (induction fuel arbitrary: self removed)
  case 0
  then show ?case by (cases rule: evict_steps_cases) simp_all
next
  case (Suc fuel)
  from Suc.prems show ?case
  proof (cases rule: evict_steps_cases)
    case (step n fuel' removed')
    from Suc.IH [of "self\<lparr>current_memory := drop 1 (current_memory self)\<rparr>" removed'] step
    have a: "self' = self\<lparr>current_memory := drop (length removed') (drop 1 (current_memory self))\<rparr>"
      and b: "removed' = take (length removed') (drop 1 (current_memory self))"
      and c: "length removed' \<le> fuel"
      by simp_all
    show ?thesis
    proof (cases "current_memory self")
      case Nil
      with a b c step show ?thesis by simp
    next
      case (Cons x xs)
      with a b c step show ?thesis by simp
    qed
  qed simp_all
qed

lemma evict_steps_final:
  "evict_steps fuel self = Some ((r, self'), removed) \<Longrightarrow>
     (case r of
        Inl e \<Rightarrow> message_length (tokenizer self) (current_memory self') = Inl e
      | Inr u \<Rightarrow> (\<exists>n. message_length (tokenizer self) (current_memory self') = Inr n \<and>
                       int n \<le> token_limit self))"
proof (induction fuel arbitrary: self removed)
  case 0
  then show ?case by (cases rule: evict_steps_cases) simp_all
next
  case (Suc fuel)
  from Suc.prems show ?case
  proof (cases rule: evict_steps_cases)
    case (step n fuel' removed')
    with Suc.IH [of "self\<lparr>current_memory := drop 1 (current_memory self)\<rparr>" removed']
    show ?thesis by (cases r) simp_all
  qed simp_all
qed

lemma evict_steps_minimal:
  "evict_steps fuel self = Some ((r, self'), removed) \<Longrightarrow> j < length removed \<Longrightarrow>
     \<exists>n. message_length (tokenizer self) (drop j (current_memory self)) = Inr n \<and>
         token_limit self < int n"
proof (induction fuel arbitrary: self removed j)
  case 0
  then show ?case by (cases rule: evict_steps_cases) simp_all
next
  case (Suc fuel)
  from Suc.prems(1) show ?case
  proof (cases rule: evict_steps_cases)
    case (step n fuel' removed')
    show ?thesis
    proof (cases j)
      case 0
      with step show ?thesis by simp
    next
      case j: (Suc j')
      show ?thesis
      proof (cases "current_memory self")
        case Nil
        with step show ?thesis by simp
      next
        case (Cons x xs)
        with step j Suc.prems(2) have "j' < length removed'" by simp
        from Suc.IH [OF _ this, of "self\<lparr>current_memory := drop 1 (current_memory self)\<rparr>"]
          step Cons j show ?thesis by simp
      qed
    qed
  qed (use Suc.prems(2) in simp_all)
qed

lemma evict_steps_terminates:
  "0 \<le> token_limit self \<Longrightarrow> length (current_memory self) \<le> fuel \<Longrightarrow>
     \<exists>y removed. evict_steps fuel self = Some (y, removed)"
proof (induction fuel arbitrary: self)
  case 0
  then have "current_memory self = []" by simp
  with 0 show ?case by (simp add: evict_steps_stop)
next
  case (Suc fuel)
  show ?case
  proof (cases "message_length (tokenizer self) (current_memory self)")
    case (Inl e)
    then show ?thesis by (simp add: evict_steps_raise)
  next
    case (Inr n)
    show ?thesis
    proof (cases "int n > token_limit self")
      case False
      with Inr show ?thesis by (simp add: evict_steps_stop)
    next
      case True
      let ?s = "self\<lparr>current_memory := drop 1 (current_memory self)\<rparr>"
      from Suc.prems have "0 \<le> token_limit ?s" "length (current_memory ?s) \<le> fuel"
        by simp_all
      from Suc.IH [OF this] obtain y removed where "evict_steps fuel ?s = Some (y, removed)"
        by blast
      with Inr True show ?thesis by (simp add: evict_steps_Suc)
    qed
  qed
qed


lemma aput_evict_total_negative:
  assumes neg: "token_limit self < 0" and total: "\<And>m. \<exists>n. tokenizer self m = Inr n"
  shows "aput_evict self = None"
proof (cases "aput_evict self")
  case None
  then show ?thesis .
next
  case (Some y)
  obtain r self' where y: "y = (r, self')" by (cases y)
  from evict_steps_complete [OF Some] y obtain fuel removed where
    st: "evict_steps fuel self = Some ((r, self'), removed)" by blast
  show ?thesis
  proof (cases r)
    case (Inl e)
    with evict_steps_final [OF st]
    have "message_length (tokenizer self) (current_memory self') = Inl e" by simp
    from message_length_Inl [OF this] total show ?thesis by (metis sum.distinct(1))
  next
    case (Inr u)
    with evict_steps_final [OF st] neg show ?thesis by auto
  qed
qed

lemma aput_steps:
  assumes "aput kr vr self messages = Some (r, self')"
  shows "\<exists>fuel removed. evict_steps fuel (aput_append kr vr self messages) = Some ((r, self'), removed)"
  using assms evict_steps_complete unfolding aput_def by blast

lemma aput_appended_fields:
  "token_limit (aput_append kr vr self messages) = token_limit self \<and>
   tokenizer (aput_append kr vr self messages) = tokenizer self \<and>
   current_memory (aput_append kr vr self messages) =
     current_memory self @ map (memory_str kr vr) messages"
  by (simp add: aput_append_memory)

lemma message_length_Inr_all:
  "message_length tok xs = Inr n \<Longrightarrow> m \<in> set xs \<Longrightarrow> \<exists>k. tok m = Inr k"
  by (induction xs arbitrary: n) (auto split: sum.splits)

lemma message_length_fails:
  assumes "m \<in> set xs" and "tok m = Inl e0"
  shows "\<exists>e. message_length tok xs = Inl e"
proof (cases "message_length tok xs")
  case (Inl e)
  then show ?thesis by blast
next
  case (Inr n)
  from message_length_Inr_all [OF Inr assms(1)] assms(2) show ?thesis by simp
qed

lemma message_length_drop1:
  "message_length tok xs = Inr n \<Longrightarrow> \<exists>n'. message_length tok (drop 1 xs) = Inr n'"
  by (cases xs) (auto split: sum.splits)

lemma evict_steps_no_late_raise:
  "message_length (tokenizer self) (current_memory self) = Inr n \<Longrightarrow>
   evict_steps fuel self = Some ((r, self'), removed) \<Longrightarrow> r = Inr ()"
proof (induction fuel arbitrary: self n removed)
  case 0
  from 0(2) 0(1) show ?case by (cases rule: evict_steps_cases) simp_all
next
  case (Suc fuel)
  from Suc.prems(2) show ?case
  proof (cases rule: evict_steps_cases)
    case (raise e)
    with Suc.prems(1) show ?thesis by simp
  next
    case (stop k)
    then show ?thesis by simp
  next
    case (step k fuel' removed')
    let ?s = "self\<lparr>current_memory := drop 1 (current_memory self)\<rparr>"
    from message_length_drop1 [OF Suc.prems(1)] obtain n' where
      "message_length (tokenizer ?s) (current_memory ?s) = Inr n'" by auto
    from Suc.IH [OF this] step show ?thesis by simp
  qed
qed

section \<open>The claims about the block\<close>

text \<open>
  Claim C1. Whenever a call of \<open>_aput\<close> returns, the total token cost of the stored
  strings, as the tokenizer counts them, is at most \<open>token_limit\<close>. The stored strings
  are what is left of the old contents followed by the new strings after \<open>k\<close> entries were
  removed from the oldest end, and \<open>k\<close> is the least number of removals that reaches the
  bound: before each removal the total was above the limit. The bound holds after every
  call that returns, whatever the block held before, so it holds along every sequence of
  calls; no case needs the exception that the claim allows.
\<close>

theorem aput_token_bound:
  assumes "aput kr vr self messages = Some (Inr (), self')"
  shows "(\<exists>n. message_length (tokenizer self') (current_memory self') = Inr n \<and>
              int n \<le> token_limit self') \<and>
         (\<exists>k. current_memory self' = drop k (current_memory self @ map (memory_str kr vr) messages) \<and>
              (\<forall>j<k. \<exists>c. message_length (tokenizer self)
                              (drop j (current_memory self @ map (memory_str kr vr) messages)) = Inr c \<and>
                            token_limit self < int c))"
proof -
  let ?a = "aput_append kr vr self messages"
  from aput_steps [OF assms] obtain fuel removed where
    st: "evict_steps fuel ?a = Some ((Inr (), self'), removed)" by blast
  from evict_steps_fields [OF st] aput_appended_fields [of kr vr self messages]
  have f: "token_limit self' = token_limit self" "tokenizer self' = tokenizer self" by simp_all
  from evict_steps_final [OF st] f aput_appended_fields [of kr vr self messages]
  have bound: "\<exists>n. message_length (tokenizer self') (current_memory self') = Inr n \<and>
                   int n \<le> token_limit self'" by simp
  from evict_steps_shape [OF st] aput_appended_fields [of kr vr self messages]
  have shape: "current_memory self' =
      drop (length removed) (current_memory self @ map (memory_str kr vr) messages)" by simp
  have least: "\<forall>j<length removed. \<exists>c. message_length (tokenizer self)
        (drop j (current_memory self @ map (memory_str kr vr) messages)) = Inr c \<and>
        token_limit self < int c"
    using evict_steps_minimal [OF st] aput_appended_fields [of kr vr self messages] by simp
  from bound shape least show ?thesis by blast
qed

theorem aput_token_bound_witness:
  "aput id id \<lparr>current_memory = [], token_limit = 100, tokenizer = char_tokenizer\<rparr>
       [chat_message USER ''one'', chat_message USER ''two'', chat_message USER ''three'']
     = Some (Inr (), \<lparr>current_memory =
          [''<message role=MessageRole.USER>\<newline>two\<newline></message>'',
           ''<message role=MessageRole.USER>\<newline>three\<newline></message>''],
          token_limit = 100, tokenizer = char_tokenizer\<rparr>) \<and>
   (\<exists>n. message_length char_tokenizer
          [''<message role=MessageRole.USER>\<newline>two\<newline></message>'',
           ''<message role=MessageRole.USER>\<newline>three\<newline></message>''] = Inr n \<and> int n \<le> 100)"
proof -
  have h: "aput id id \<lparr>current_memory = [], token_limit = 100, tokenizer = char_tokenizer\<rparr>
       [chat_message USER ''one'', chat_message USER ''two'', chat_message USER ''three'']
     = Some (Inr (), \<lparr>current_memory =
          [''<message role=MessageRole.USER>\<newline>two\<newline></message>'',
           ''<message role=MessageRole.USER>\<newline>three\<newline></message>''],
          token_limit = 100, tokenizer = char_tokenizer\<rparr>)"
    by (simp add: aput_def chat_message_def memory_str_def aput_evict.simps char_tokenizer_def)
  from aput_token_bound [OF h] have
    "\<exists>n. message_length char_tokenizer
          [''<message role=MessageRole.USER>\<newline>two\<newline></message>'',
           ''<message role=MessageRole.USER>\<newline>three\<newline></message>''] = Inr n \<and> int n \<le> 100"
    by simp
  with h show ?thesis by (rule conjI)
qed

text \<open>
  Claim C3. However a call of \<open>_aput\<close> ends, the strings it removed, listed in the order
  of their removal, followed by the strings that are still stored, are exactly the old
  contents followed by the new strings in the order of the messages: the removed strings
  are a prefix of the insertion order, oldest first, and the survivors are the rest, in
  their original order.
\<close>

theorem aput_fifo:
  assumes "aput kr vr self messages = Some (r, self')"
  shows "\<exists>fuel removed.
           evict_steps fuel (aput_append kr vr self messages) = Some ((r, self'), removed) \<and>
           removed @ current_memory self' = current_memory self @ map (memory_str kr vr) messages \<and>
           removed = take (length removed) (current_memory self @ map (memory_str kr vr) messages) \<and>
           current_memory self' = drop (length removed) (current_memory self @ map (memory_str kr vr) messages)"
proof -
  let ?a = "aput_append kr vr self messages"
  let ?all = "current_memory self @ map (memory_str kr vr) messages"
  from aput_steps [OF assms] obtain fuel removed where
    st: "evict_steps fuel ?a = Some ((r, self'), removed)" by blast
  from evict_steps_shape [OF st] aput_appended_fields [of kr vr self messages]
  have tk: "removed = take (length removed) ?all"
    and dr: "current_memory self' = drop (length removed) ?all" by simp_all
  have "take (length removed) ?all @ drop (length removed) ?all = ?all"
    by (rule append_take_drop_id)
  with tk dr have "removed @ current_memory self' = ?all" by simp
  with st tk dr show ?thesis by blast
qed

theorem aput_fifo_witness:
  "aput id id \<lparr>current_memory = [], token_limit = 100, tokenizer = char_tokenizer\<rparr>
       [chat_message USER ''one'', chat_message USER ''two'', chat_message USER ''three'']
     = Some (Inr (), \<lparr>current_memory =
          [''<message role=MessageRole.USER>\<newline>two\<newline></message>'',
           ''<message role=MessageRole.USER>\<newline>three\<newline></message>''],
          token_limit = 100, tokenizer = char_tokenizer\<rparr>) \<and>
   (\<exists>removed. removed @
          [''<message role=MessageRole.USER>\<newline>two\<newline></message>'',
           ''<message role=MessageRole.USER>\<newline>three\<newline></message>''] =
       map (memory_str id id)
         [chat_message USER ''one'', chat_message USER ''two'', chat_message USER ''three''])"
proof -
  have h: "aput id id \<lparr>current_memory = [], token_limit = 100, tokenizer = char_tokenizer\<rparr>
       [chat_message USER ''one'', chat_message USER ''two'', chat_message USER ''three'']
     = Some (Inr (), \<lparr>current_memory =
          [''<message role=MessageRole.USER>\<newline>two\<newline></message>'',
           ''<message role=MessageRole.USER>\<newline>three\<newline></message>''],
          token_limit = 100, tokenizer = char_tokenizer\<rparr>)"
    by (simp add: aput_def chat_message_def memory_str_def aput_evict.simps char_tokenizer_def)
  from aput_fifo [OF h] obtain removed where
    "removed @
          [''<message role=MessageRole.USER>\<newline>two\<newline></message>'',
           ''<message role=MessageRole.USER>\<newline>three\<newline></message>''] =
       map (memory_str id id)
         [chat_message USER ''one'', chat_message USER ''two'', chat_message USER ''three'']"
    by auto
  then have "\<exists>removed. removed @
          [''<message role=MessageRole.USER>\<newline>two\<newline></message>'',
           ''<message role=MessageRole.USER>\<newline>three\<newline></message>''] =
       map (memory_str id id)
         [chat_message USER ''one'', chat_message USER ''two'', chat_message USER ''three'']"
    by blast
  with h show ?thesis by (rule conjI)
qed

text \<open>
  Claim C9, as stated, fails: with \<open>token_limit = -1\<close>, an empty block and a tokenizer that
  never fails, the total of the empty list is \<open>0\<close>, which is above the limit; the slice
  \<open>current_memory[1:]\<close> of the empty list is the empty list again, so the loop removes
  nothing and never ends.
\<close>

theorem aput_negative_limit_never_returns:
  "aput id id \<lparr>current_memory = [], token_limit = - 1, tokenizer = char_tokenizer\<rparr>
     ([] :: string ChatMessage list) = None"
  unfolding aput_def
  by (rule aput_evict_total_negative) (simp_all add: char_tokenizer_def)

text \<open>
  Claim C9, amended. When \<open>token_limit\<close> is not negative, the eviction loop ends within as
  many iterations as \<open>current_memory\<close> has entries after the appends (the old entries plus
  one for each message), each iteration removing the oldest entry; \<open>_aput\<close> then ends,
  and when the tokenizer never fails it returns.
\<close>

theorem aput_terminates:
  assumes "0 \<le> token_limit self"
  shows "\<exists>r self' removed.
           evict_steps (length (current_memory self) + length messages)
             (aput_append kr vr self messages) = Some ((r, self'), removed) \<and>
           length removed \<le> length (current_memory self) + length messages \<and>
           aput kr vr self messages = Some (r, self') \<and>
           ((\<forall>m. \<exists>n. tokenizer self m = Inr n) \<longrightarrow> r = Inr ())"
proof -
  let ?a = "aput_append kr vr self messages"
  let ?fuel = "length (current_memory self) + length messages"
  from assms aput_appended_fields [of kr vr self messages]
  have "0 \<le> token_limit ?a" "length (current_memory ?a) \<le> ?fuel" by simp_all
  from evict_steps_terminates [OF this] obtain r self' removed where
    st: "evict_steps ?fuel ?a = Some ((r, self'), removed)" by (metis surj_pair)
  from evict_steps_shape [OF st] have len: "length removed \<le> ?fuel" by simp
  from evict_steps_sound [OF st] have ret: "aput kr vr self messages = Some (r, self')"
    by (simp add: aput_def)
  have "r = Inr ()" if total: "\<forall>m. \<exists>n. tokenizer self m = Inr n"
  proof (cases r)
    case (Inl e)
    with evict_steps_final [OF st] aput_appended_fields [of kr vr self messages]
    have "message_length (tokenizer self) (current_memory self') = Inl e" by simp
    from message_length_Inl [OF this] total show ?thesis by (metis sum.distinct(1))
  next
    case (Inr u)
    then show ?thesis by simp
  qed
  with st len ret show ?thesis by blast
qed

theorem aput_terminates_witness:
  "(0::int) \<le> 100 \<and> (\<forall>m. \<exists>n. char_tokenizer m = Inr n) \<and>
   (\<exists>self'. aput id id \<lparr>current_memory = [], token_limit = 100, tokenizer = char_tokenizer\<rparr>
       [chat_message USER ''one'', chat_message USER ''two'', chat_message USER ''three'']
     = Some (Inr (), self'))"
proof -
  have h: "0 \<le> token_limit \<lparr>current_memory = [], token_limit = 100, tokenizer = char_tokenizer\<rparr>"
    by simp
  have total: "\<forall>m. \<exists>n. char_tokenizer m = Inr n"
    by (simp add: char_tokenizer_def)
  from aput_terminates [OF h, where kr = id and vr = id and
      messages = "[chat_message USER ''one'', chat_message USER ''two'', chat_message USER ''three'']"]
    total
  have "\<exists>self'. aput id id \<lparr>current_memory = [], token_limit = 100, tokenizer = char_tokenizer\<rparr>
       [chat_message USER ''one'', chat_message USER ''two'', chat_message USER ''three'']
     = Some (Inr (), self')"
    by auto
  with total show ?thesis by simp
qed

text \<open>
  Claim C4, as stated, fails: with a tokenizer that fails on every string, \<open>_aput\<close> of one
  message into an empty block raises the tokenizer's error and leaves the rendered string
  of that message in \<open>current_memory\<close>, which was empty before the call.
\<close>

theorem aput_error_keeps_appended:
  "aput id id \<lparr>current_memory = [], token_limit = 50000, tokenizer = failing_tokenizer\<rparr>
       [chat_message USER ''hi'']
     = Some (Inl (TokenizationError ''<message role=MessageRole.USER>\<newline>hi\<newline></message>''),
             \<lparr>current_memory = [''<message role=MessageRole.USER>\<newline>hi\<newline></message>''],
              token_limit = 50000, tokenizer = failing_tokenizer\<rparr>) \<and>
   [''<message role=MessageRole.USER>\<newline>hi\<newline></message>''] \<noteq> ([] :: string list)"
  by (simp add: aput_def chat_message_def memory_str_def aput_evict.simps failing_tokenizer_def)

text \<open>
  Claim C4, amended. When the tokenizer fails on one of the strings that \<open>_aput\<close> counts
  (the old contents and the new rendered strings), the call raises an error of the
  tokenizer and leaves the block with every new string appended and nothing removed;
  \<open>token_limit\<close> and the tokenizer are unchanged. Conversely, whenever \<open>_aput\<close> raises,
  this is the state it leaves, and the error is one the tokenizer gave on one of those
  strings. The appends are not undone.
\<close>

theorem aput_error_state:
  "((\<exists>m \<in> set (current_memory self @ map (memory_str kr vr) messages). \<exists>e0. tokenizer self m = Inl e0) \<longrightarrow>
      (\<exists>e. aput kr vr self messages =
             Some (Inl e, self\<lparr>current_memory := current_memory self @ map (memory_str kr vr) messages\<rparr>))) \<and>
   (aput kr vr self messages = Some (Inl e, self') \<longrightarrow>
      self' = self\<lparr>current_memory := current_memory self @ map (memory_str kr vr) messages\<rparr> \<and>
      (\<exists>m \<in> set (current_memory self @ map (memory_str kr vr) messages). tokenizer self m = Inl e))"
proof -
  let ?all = "current_memory self @ map (memory_str kr vr) messages"
  let ?a = "aput_append kr vr self messages"
  have a: "?a = self\<lparr>current_memory := ?all\<rparr>" by (rule aput_append_memory)
  have raises: "\<exists>e. aput kr vr self messages = Some (Inl e, self\<lparr>current_memory := ?all\<rparr>)"
    if "\<exists>m \<in> set ?all. \<exists>e0. tokenizer self m = Inl e0"
  proof -
    from that message_length_fails obtain e where "message_length (tokenizer self) ?all = Inl e"
      by blast
    with a have "message_length (tokenizer ?a) (current_memory ?a) = Inl e" by simp
    from evict_steps_sound [OF evict_steps_raise [OF this, of 0]] a show ?thesis
      by (auto simp: aput_def)
  qed
  have state: "self' = self\<lparr>current_memory := ?all\<rparr> \<and> (\<exists>m \<in> set ?all. tokenizer self m = Inl e)"
    if ret: "aput kr vr self messages = Some (Inl e, self')"
  proof -
    from aput_steps [OF ret] obtain fuel removed where
      st: "evict_steps fuel ?a = Some ((Inl e, self'), removed)" by blast
    show ?thesis
    proof (cases "message_length (tokenizer ?a) (current_memory ?a)")
      case (Inl e')
      from evict_steps_raise [OF Inl, of fuel] st have "e' = e" "self' = ?a" by simp_all
      moreover from Inl a have "message_length (tokenizer self) ?all = Inl e'" by simp
      from message_length_Inl [OF this] have "\<exists>m \<in> set ?all. tokenizer self m = Inl e'" .
      ultimately show ?thesis using a by simp
    next
      case (Inr n)
      from evict_steps_no_late_raise [OF Inr st] show ?thesis by simp
    qed
  qed
  from raises state show ?thesis by blast
qed

theorem aput_error_state_witness:
  "failing_tokenizer ''old'' = Inl (TokenizationError ''old'') \<and>
   aput id id \<lparr>current_memory = [''old''], token_limit = 1, tokenizer = failing_tokenizer\<rparr>
       [chat_message USER ''hi'']
     = Some (Inl (TokenizationError ''old''),
             \<lparr>current_memory = [''old'', ''<message role=MessageRole.USER>\<newline>hi\<newline></message>''],
              token_limit = 1, tokenizer = failing_tokenizer\<rparr>)"
proof -
  let ?b = "\<lparr>current_memory = [''old''], token_limit = 1, tokenizer = failing_tokenizer\<rparr>"
  let ?ms = "[chat_message USER ''hi''] :: string ChatMessage list"
  have f: "failing_tokenizer ''old'' = Inl (TokenizationError ''old'')"
    by (simp add: failing_tokenizer_def)
  then have h: "\<exists>m \<in> set (current_memory ?b @ map (memory_str id id) ?ms).
                  \<exists>e0. tokenizer ?b m = Inl e0"
    by simp
  from aput_error_state [of ?b id id ?ms] h obtain e where
    r: "aput id id ?b ?ms = Some (Inl e, ?b\<lparr>current_memory := current_memory ?b @ map (memory_str id id) ?ms\<rparr>)"
    by blast
  from aput_error_state [of ?b id id ?ms e] r
  have "\<exists>m \<in> set (current_memory ?b @ map (memory_str id id) ?ms). tokenizer ?b m = Inl e"
    by blast
  then have "e = TokenizationError ''old'' \<or>
             e = TokenizationError ''<message role=MessageRole.USER>\<newline>hi\<newline></message>''"
    by (auto simp: failing_tokenizer_def chat_message_def memory_str_def)
  moreover have "aput id id ?b ?ms \<noteq>
      Some (Inl (TokenizationError ''<message role=MessageRole.USER>\<newline>hi\<newline></message>''),
        ?b\<lparr>current_memory := current_memory ?b @ map (memory_str id id) ?ms\<rparr>)"
    by (simp add: aput_def aput_evict.simps failing_tokenizer_def chat_message_def memory_str_def)
  ultimately have "e = TokenizationError ''old''" using r by auto
  with r f show ?thesis by (simp add: chat_message_def memory_str_def)
qed

text \<open>
  Claim C2, as stated, fails: with \<open>token_limit = 10\<close>, one token for each character and a
  message whose rendered form costs 50 tokens, \<open>_aput\<close> into an empty block returns and
  leaves the block empty: the oversized entry is removed like any other.
\<close>

theorem aput_oversized_not_kept:
  "char_tokenizer (memory_str id id (chat_message USER ''Hello!!'')) = Inr 50 \<and>
   aput id id \<lparr>current_memory = [], token_limit = 10, tokenizer = char_tokenizer\<rparr>
       [chat_message USER ''Hello!!'']
     = Some (Inr (), \<lparr>current_memory = [], token_limit = 10, tokenizer = char_tokenizer\<rparr>)"
  by (simp add: aput_def chat_message_def memory_str_def aput_evict.simps char_tokenizer_def)

text \<open>
  Claim C2, amended. If the rendered form of a single message costs more than a
  non-negative \<open>token_limit\<close>, then \<open>_aput\<close> of that message into an empty block returns
  without an error and leaves the block empty: the entry is removed whole, it is neither
  truncated nor kept.
\<close>

theorem aput_oversized_evicted:
  assumes emp: "current_memory self = []"
    and cost: "tokenizer self (memory_str kr vr message) = Inr n"
    and above: "token_limit self < int n"
    and nonneg: "0 \<le> token_limit self"
  shows "aput kr vr self [message] = Some (Inr (), self)"
proof -
  let ?a = "self\<lparr>current_memory := [memory_str kr vr message]\<rparr>"
  have a: "aput_append kr vr self [message] = ?a" using emp by simp
  have ml: "message_length (tokenizer ?a) (current_memory ?a) = Inr n" using cost by simp
  have restored: "?a\<lparr>current_memory := drop 1 (current_memory ?a)\<rparr> = self" using emp by simp
  have "message_length (tokenizer self) (current_memory self) = Inr 0" using emp by simp
  from evict_steps_stop [OF this, of 0] nonneg
  have "evict_steps 0 self = Some ((Inr (), self), [])" by simp
  with evict_steps_Suc [OF ml, of 0] above restored
  have "evict_steps (Suc 0) ?a = Some ((Inr (), self), [memory_str kr vr message])" by simp
  from evict_steps_sound [OF this] a show ?thesis by (simp add: aput_def)
qed

theorem aput_oversized_evicted_witness:
  "current_memory \<lparr>current_memory = [], token_limit = 10, tokenizer = char_tokenizer\<rparr> = [] \<and>
   char_tokenizer (memory_str id id (chat_message USER ''Hello!!'')) = Inr 50 \<and>
   (10::int) < int 50 \<and> (0::int) \<le> 10 \<and>
   aput id id \<lparr>current_memory = [], token_limit = 10, tokenizer = char_tokenizer\<rparr>
       [chat_message USER ''Hello!!'']
     = Some (Inr (), \<lparr>current_memory = [], token_limit = 10, tokenizer = char_tokenizer\<rparr>)"
proof -
  let ?b = "\<lparr>current_memory = [], token_limit = 10, tokenizer = char_tokenizer\<rparr>"
  have h1: "current_memory ?b = []" by simp
  have h2: "tokenizer ?b (memory_str id id (chat_message USER ''Hello!!'')) = Inr 50"
    by (simp add: chat_message_def memory_str_def char_tokenizer_def)
  have h3: "token_limit ?b < int 50" by simp
  have h4: "0 \<le> token_limit ?b" by simp
  from aput_oversized_evicted [OF h1 h2 h3 h4] h2 show ?thesis by simp
qed

text \<open>
  Claim C6. \<open>_aget\<close> leaves the block as it found it, with every field unchanged, so a
  second call with no \<open>_aput\<close> in between gives the same output; the output is the
  stored strings joined by newlines.
\<close>

theorem aget_pure_idempotent:
  "snd (aget self) = self \<and> aget (snd (aget self)) = aget self \<and>
   fst (aget self) = join ''\<newline>'' (current_memory self)"
  by (simp add: aget_def)

section \<open>The claims about the rendered string\<close>

lemma concat_map_filter:
  "concat (map (\<lambda>x. if P x then [f x] else []) xs) = map f (filter P xs)"
  by (induction xs) simp_all

lemma text_segments_filter:
  "text_segments m = map block_text (filter isinstance_TextBlock (blocks m))"
  unfolding text_segments_def by (rule concat_map_filter)

lemma auxiliary_data_filter:
  "auxiliary_data m = filter (\<lambda>(key, val). key \<noteq> ''session_id'') (additional_kwargs m)"
proof -
  have "concat (map (\<lambda>(k, v). if k \<noteq> ''session_id'' then [(k, v)] else []) xs)
          = filter (\<lambda>(key, val). key \<noteq> ''session_id'') xs" for xs :: "(string \<times> 'a) list"
    by (induction xs) auto
  then show ?thesis unfolding auxiliary_data_def .
qed

lemma memory_str_canonical: "memory_str kr vr m = canonical_form kr vr m"
  by (simp add: memory_str_def canonical_form_def role_tag_def Let_def
      text_segments_filter auxiliary_data_filter)

text \<open>
  Claim C5. The string \<open>_aput\<close> builds for a message is the canonical form of the
  specification: the role tag, then the newline-joined text segments when that text is
  not empty, then the auxiliary data without the key \<open>session_id\<close> when any key remains,
  then the closing tag; each part after the first is preceded by a newline. \<open>_aput\<close>
  appends exactly one such string for each message, in order, before the eviction loop
  runs.
\<close>

theorem aput_appends_canonical_form:
  "memory_str kr vr m = canonical_form kr vr m \<and>
   current_memory (aput_append kr vr self messages) =
     current_memory self @ map (canonical_form kr vr) messages \<and>
   length (current_memory (aput_append kr vr self messages)) =
     length (current_memory self) + length messages \<and>
   aput kr vr self messages =
     aput_evict (self\<lparr>current_memory := current_memory self @ map (canonical_form kr vr) messages\<rparr>)"
proof -
  have eq: "map (memory_str kr vr) messages = map (canonical_form kr vr) messages"
    by (simp add: memory_str_canonical)
  show ?thesis
    by (simp add: memory_str_canonical aput_def aput_append_memory eq)
qed

theorem aput_appends_canonical_form_witness:
  "current_memory (aput_append id id \<lparr>current_memory = [], token_limit = 100, tokenizer = char_tokenizer\<rparr>
      [\<lparr>role = TOOL, blocks = [TextBlock ''a'', OtherBlock ''zz'', TextBlock ''b''],
        additional_kwargs = [(''session_id'', ''1''), (''tool'', ''x'')]\<rparr>])
   = [''<message role=MessageRole.TOOL>\<newline>a\<newline>b\<newline>({tool: x})\<newline></message>'']"
proof -
  let ?m = "\<lparr>role = TOOL, blocks = [TextBlock ''a'', OtherBlock ''zz'', TextBlock ''b''],
       additional_kwargs = [(''session_id'', ''1''), (''tool'', ''x'')]\<rparr>"
  have v: "canonical_form id id ?m
     = ''<message role=MessageRole.TOOL>\<newline>a\<newline>b\<newline>({tool: x})\<newline></message>''"
    by (simp add: canonical_form_def role_tag_def text_segments_def auxiliary_data_def dict_str_def)
  from aput_appends_canonical_form [of id id ?m
      "\<lparr>current_memory = [], token_limit = 100, tokenizer = char_tokenizer\<rparr>" "[?m]"] v
  show ?thesis by simp
qed

lemma sublist_join: "x \<in> set xs \<Longrightarrow> sublist x (join sep xs)"
proof (induction sep xs rule: join.induct)
  case (1 sep)
  then show ?case by simp
next
  case (2 sep y)
  then show ?case by simp
next
  case (3 sep y z zs)
  show ?case
  proof (cases "x = y")
    case True
    then show ?thesis by simp
  next
    case False
    with 3 have "sublist x (join sep (z # zs))" by simp
    then obtain ps ss where "join sep (z # zs) = ps @ x @ ss" unfolding sublist_def by blast
    then have "join sep (y # z # zs) = (y @ sep @ ps) @ x @ ss" by simp
    then show ?thesis unfolding sublist_def by blast
  qed
qed

lemma sublist_in_middle: "sublist x y \<Longrightarrow> sublist x (ps @ y @ ss)"
proof -
  assume "sublist x y"
  then obtain p s where "y = p @ x @ s" unfolding sublist_def by blast
  then have "ps @ y @ ss = (ps @ p) @ x @ (s @ ss)" by simp
  then show ?thesis unfolding sublist_def by blast
qed

lemma sublist_dict_str:
  "(k, v) \<in> set d \<Longrightarrow> sublist (kr k @ '': '' @ vr v) (dict_str kr vr d)"
proof -
  assume "(k, v) \<in> set d"
  then have "kr k @ '': '' @ vr v \<in> set (map (\<lambda>(key, val). kr key @ '': '' @ vr val) d)"
    by force
  from sublist_join [OF this] show ?thesis
    unfolding dict_str_def by (rule sublist_in_middle)
qed

lemma memory_str_parts:
  "memory_str kr vr m =
     (''<message role='' @ role_str (role m) @ ''>''
        @ (if join ''\<newline>'' (text_segments m) = [] then [] else ''\<newline>''))
     @ join ''\<newline>'' (text_segments m)
     @ ((if auxiliary_data m = [] then [] else ''\<newline>('' @ dict_str kr vr (auxiliary_data m) @ '')'')
        @ ''\<newline></message>'')"
  by (simp add: memory_str_canonical canonical_form_def role_tag_def)

lemma memory_str_parts_kwargs:
  "auxiliary_data m \<noteq> [] \<Longrightarrow> memory_str kr vr m =
     (''<message role='' @ role_str (role m) @ ''>''
        @ (if join ''\<newline>'' (text_segments m) = [] then [] else ''\<newline>'' @ join ''\<newline>'' (text_segments m))
        @ ''\<newline>('')
     @ dict_str kr vr (auxiliary_data m)
     @ ('')'' @ ''\<newline></message>'')"
  by (simp add: memory_str_canonical canonical_form_def role_tag_def)

lemma memory_str_has_text:
  assumes "b \<in> set (blocks m)" "isinstance_TextBlock b"
  shows "sublist (block_text b) (memory_str kr vr m)"
proof -
  from assms have "block_text b \<in> set (text_segments m)"
    by (simp add: text_segments_filter)
  from sublist_join [OF this] show ?thesis
    by (subst memory_str_parts) (rule sublist_in_middle)
qed

lemma memory_str_has_key:
  assumes "(k, v) \<in> set (additional_kwargs m)" "k \<noteq> ''session_id''"
  shows "sublist (kr k @ '': '' @ vr v) (memory_str kr vr m)"
proof -
  from assms have mem: "(k, v) \<in> set (auxiliary_data m)"
    by (simp add: auxiliary_data_filter)
  then have ne: "auxiliary_data m \<noteq> []" by auto
  from sublist_dict_str [OF mem] show ?thesis
    by (subst memory_str_parts_kwargs [OF ne]) (rule sublist_in_middle)
qed

text \<open>
  Claim C10. Removing the blocks that are not text blocks from a message does not change
  its rendered string, and neither does removing the entries with the key \<open>session_id\<close>
  from its auxiliary data; the text of every text block occurs in the rendered string, and
  so does every entry of the auxiliary data whose key is not \<open>session_id\<close>, shown as
  \<open>repr(key): repr(value)\<close>.
\<close>

theorem memory_str_text_blocks_and_keys:
  "memory_str kr vr (m\<lparr>blocks := filter isinstance_TextBlock (blocks m)\<rparr>) = memory_str kr vr m \<and>
   memory_str kr vr (m\<lparr>additional_kwargs :=
       filter (\<lambda>(key, val). key \<noteq> ''session_id'') (additional_kwargs m)\<rparr>) = memory_str kr vr m \<and>
   (\<forall>b \<in> set (blocks m). isinstance_TextBlock b \<longrightarrow> sublist (block_text b) (memory_str kr vr m)) \<and>
   (\<forall>(k, v) \<in> set (additional_kwargs m).
       k \<noteq> ''session_id'' \<longrightarrow> sublist (kr k @ '': '' @ vr v) (memory_str kr vr m))"
proof -
  have a: "memory_str kr vr (m\<lparr>blocks := filter isinstance_TextBlock (blocks m)\<rparr>) = memory_str kr vr m"
    by (simp add: memory_str_def)
  have b: "memory_str kr vr (m\<lparr>additional_kwargs :=
       filter (\<lambda>(key, val). key \<noteq> ''session_id'') (additional_kwargs m)\<rparr>) = memory_str kr vr m"
    by (simp add: memory_str_def)
  from a b memory_str_has_text [of _ m kr vr] memory_str_has_key [of _ _ m kr vr]
  show ?thesis by blast
qed

theorem memory_str_text_blocks_and_keys_witness:
  "memory_str id id \<lparr>role = TOOL, blocks = [TextBlock ''a'', OtherBlock ''zz'', TextBlock ''b''],
       additional_kwargs = [(''session_id'', ''1''), (''tool'', ''x'')]\<rparr>
     = ''<message role=MessageRole.TOOL>\<newline>a\<newline>b\<newline>({tool: x})\<newline></message>'' \<and>
   TextBlock ''b'' \<in> set [TextBlock ''a'', OtherBlock ''zz'', TextBlock ''b''] \<and>
   isinstance_TextBlock (TextBlock ''b'') \<and>
   sublist ''b'' ''<message role=MessageRole.TOOL>\<newline>a\<newline>b\<newline>({tool: x})\<newline></message>'' \<and>
   (''tool'', ''x'') \<in> set [(''session_id'', ''1''), (''tool'', ''x'')] \<and>
   ''tool'' \<noteq> ''session_id'' \<and>
   sublist ''tool: x'' ''<message role=MessageRole.TOOL>\<newline>a\<newline>b\<newline>({tool: x})\<newline></message>''"
proof -
  let ?m = "\<lparr>role = TOOL, blocks = [TextBlock ''a'', OtherBlock ''zz'', TextBlock ''b''],
       additional_kwargs = [(''session_id'', ''1''), (''tool'', ''x'')]\<rparr>"
  have v: "memory_str id id ?m
     = ''<message role=MessageRole.TOOL>\<newline>a\<newline>b\<newline>({tool: x})\<newline></message>''"
    by (simp add: memory_str_def dict_str_def)
  from memory_str_text_blocks_and_keys [of id id ?m]
  have "sublist (block_text (TextBlock ''b'')) (memory_str id id ?m) \<and>
        sublist (id ''tool'' @ '': '' @ id ''x'') (memory_str id id ?m)"
    by simp
  with v show ?thesis by simp
qed

section \<open>The claims about the session\<close>

lemma message_length_returns:
  "(\<And>m. \<exists>n. tok m = Inr n) \<Longrightarrow> \<exists>n. message_length tok xs = Inr n"
proof (induction xs)
  case Nil
  then show ?case by simp
next
  case (Cons x xs)
  from Cons.prems obtain n where "tok x = Inr n" by blast
  moreover from Cons obtain s where "message_length tok xs = Inr s" by blast
  ultimately show ?case by simp
qed

lemma flush_split_post:
  "flush_split rendered tok thr ts = Inr (moved, kept) \<Longrightarrow>
     moved @ kept = ts \<and>
     (kept = [] \<or> (\<exists>c. message_length tok (map rendered kept) = Inr c \<and> of_nat c \<le> thr))"
proof (induction ts arbitrary: moved)
  case Nil
  then show ?case by simp
next
  case (Cons t ts)
  from Cons.prems obtain c where c: "message_length tok (map rendered (t # ts)) = Inr c"
    by (cases "message_length tok (map rendered (t # ts))") simp_all
  show ?case
  proof (cases "of_nat c \<le> thr")
    case True
    with c Cons.prems have "moved = []" "kept = t # ts" by simp_all
    with c True show ?thesis by auto
  next
    case False
    with c Cons.prems obtain moved' where
      rec: "flush_split rendered tok thr ts = Inr (moved', kept)" and mv: "moved = t # moved'"
      by (cases "flush_split rendered tok thr ts") auto
    from Cons.IH [OF rec] mv show ?thesis by simp
  qed
qed

lemma flush_split_returns:
  assumes "\<And>m. \<exists>n. tok m = Inr n"
  shows "\<exists>moved kept. flush_split rendered tok thr ts = Inr (moved, kept)"
proof (induction ts)
  case Nil
  then show ?case by simp
next
  case (Cons t ts)
  from message_length_returns [of tok "map rendered (t # ts)"] assms
  obtain c where c: "message_length tok (map rendered (t # ts)) = Inr c" by blast
  from Cons obtain moved kept where "flush_split rendered tok thr ts = Inr (moved, kept)" by blast
  with c show ?case by (cases "of_nat c \<le> thr") simp_all
qed

lemma aput_fields:
  assumes "aput kr vr b messages = Some (r, b')"
  shows "token_limit b' = token_limit b \<and> tokenizer b' = tokenizer b"
proof -
  from aput_steps [OF assms] obtain fuel removed where
    "evict_steps fuel (aput_append kr vr b messages) = Some ((r, b'), removed)" by blast
  from evict_steps_fields [OF this] show ?thesis by (simp add: aput_append_memory)
qed

lemma aput_returns:
  assumes "0 \<le> token_limit b" and total: "\<And>m. \<exists>n. tokenizer b m = Inr n"
  shows "\<exists>b'. aput kr vr b messages = Some (Inr (), b')"
proof -
  let ?a = "aput_append kr vr b messages"
  from assms(1) have "0 \<le> token_limit ?a" "length (current_memory ?a) \<le> length (current_memory ?a)"
    by (simp_all add: aput_append_memory)
  from evict_steps_terminates [OF this] obtain r b' removed where
    st: "evict_steps (length (current_memory ?a)) ?a = Some ((r, b'), removed)" by (metis surj_pair)
  have "r = Inr ()"
  proof (cases r)
    case (Inl e)
    with evict_steps_final [OF st]
    have "message_length (tokenizer b) (current_memory b') = Inl e"
      by (simp add: aput_append_memory)
    from message_length_Inl [OF this] total show ?thesis by (metis sum.distinct(1))
  next
    case (Inr u)
    then show ?thesis by simp
  qed
  with evict_steps_sound [OF st] show ?thesis by (simp add: aput_def)
qed

lemma foldl_append_turns_fields:
  "condensation (foldl append_turns s batches) = condensation s \<and>
   chat_history_token_ratio (foldl append_turns s batches) = chat_history_token_ratio s"
  by (induction batches arbitrary: s) (simp_all add: append_turns_def)

lemma flush_post:
  assumes "flush kr vr s = Some (Inr (), s')"
  shows "threshold s' = threshold s \<and>
         (live_window s' = [] \<or> under_budget kr vr s')"
proof -
  let ?tok = "tokenizer (condensation s)"
  from assms obtain moved kept where
    sp: "flush_split (memory_str kr vr) ?tok (threshold s) (live_window s) = Inr (moved, kept)"
    unfolding flush_def
    by (cases "flush_split (memory_str kr vr) ?tok (threshold s) (live_window s)") auto
  with assms obtain b where
    ap: "aput kr vr (condensation s) moved = Some (Inr (), b)"
    and s': "s' = s\<lparr>live_window := kept, condensation := b\<rparr>"
    unfolding flush_def
    by (auto split: option.splits sum.splits)
  from aput_fields [OF ap] have f: "token_limit b = token_limit (condensation s)"
    "tokenizer b = ?tok" by simp_all
  from f s' have thr: "threshold s' = threshold s" by (simp add: threshold_def)
  from flush_split_post [OF sp]
  have "kept = [] \<or> (\<exists>c. message_length ?tok (map (memory_str kr vr) kept) = Inr c \<and>
          of_nat c \<le> threshold s)" by simp
  with s' f thr have "live_window s' = [] \<or> under_budget kr vr s'"
    by (auto simp: under_budget_def window_cost_def)
  with thr show ?thesis by simp
qed

lemma under_budget_empty:
  "live_window s = [] \<Longrightarrow> under_budget kr vr s = (0 \<le> threshold s)"
  by (simp add: under_budget_def window_cost_def)

lemma flush_returns:
  assumes "0 \<le> token_limit (condensation s)"
    and total: "\<And>m. \<exists>n. tokenizer (condensation s) m = Inr n"
  shows "\<exists>s'. flush kr vr s = Some (Inr (), s')"
proof -
  from flush_split_returns [of "tokenizer (condensation s)" "memory_str kr vr" "threshold s" "live_window s"] total
  obtain moved kept where
    sp: "flush_split (memory_str kr vr) (tokenizer (condensation s)) (threshold s) (live_window s)
           = Inr (moved, kept)" by blast
  from aput_returns [of "condensation s" kr vr moved] assms
  obtain b where "aput kr vr (condensation s) moved = Some (Inr (), b)" by blast
  with sp show ?thesis by (simp add: flush_def)
qed

text \<open>
  Claim C8, as stated, fails in three ways. With a ratio of \<open>-1\<close> the flush returns with
  an empty live window, whose cost \<open>0\<close> is above the negative threshold, so the session is
  not under budget. With \<open>token_limit = -1\<close> the block's eviction loop never ends, so the
  flush never returns. With a tokenizer that fails the flush raises and the turn stays in
  the live window.
\<close>

theorem flush_not_always_under_budget:
  "flush id id (foldl append_turns
       \<lparr>live_window = [],
        condensation = \<lparr>current_memory = [], token_limit = 50000, tokenizer = char_tokenizer\<rparr>,
        chat_history_token_ratio = - 1\<rparr>
       [[chat_message USER ''hi'']])
     = Some (Inr (),
         \<lparr>live_window = [],
          condensation = \<lparr>current_memory = [''<message role=MessageRole.USER>\<newline>hi\<newline></message>''],
             token_limit = 50000, tokenizer = char_tokenizer\<rparr>,
          chat_history_token_ratio = - 1\<rparr>) \<and>
   \<not> under_budget id id
         \<lparr>live_window = ([] :: string ChatMessage list),
          condensation = \<lparr>current_memory = [''<message role=MessageRole.USER>\<newline>hi\<newline></message>''],
             token_limit = 50000, tokenizer = char_tokenizer\<rparr>,
          chat_history_token_ratio = - 1\<rparr> \<and>
   flush id id (foldl append_turns
       \<lparr>live_window = [],
        condensation = \<lparr>current_memory = [], token_limit = - 1, tokenizer = char_tokenizer\<rparr>,
        chat_history_token_ratio = 1 / 10000\<rparr>
       [[chat_message USER ''hi'']])
     = None \<and>
   flush id id (foldl append_turns
       \<lparr>live_window = [],
        condensation = \<lparr>current_memory = [], token_limit = 50000, tokenizer = failing_tokenizer\<rparr>,
        chat_history_token_ratio = 1 / 10000\<rparr>
       [[chat_message USER ''hi'']])
     = Some (Inl (TokenizationError ''<message role=MessageRole.USER>\<newline>hi\<newline></message>''),
         \<lparr>live_window = [chat_message USER ''hi''],
          condensation = \<lparr>current_memory = [], token_limit = 50000, tokenizer = failing_tokenizer\<rparr>,
          chat_history_token_ratio = 1 / 10000\<rparr>)"
proof -
  have a: "flush id id (foldl append_turns
       \<lparr>live_window = [],
        condensation = \<lparr>current_memory = [], token_limit = 50000, tokenizer = char_tokenizer\<rparr>,
        chat_history_token_ratio = - 1\<rparr>
       [[chat_message USER ''hi'']])
     = Some (Inr (),
         \<lparr>live_window = [],
          condensation = \<lparr>current_memory = [''<message role=MessageRole.USER>\<newline>hi\<newline></message>''],
             token_limit = 50000, tokenizer = char_tokenizer\<rparr>,
          chat_history_token_ratio = - 1\<rparr>)"
    by (simp add: flush_def append_turns_def threshold_def chat_message_def memory_str_def
        aput_def aput_evict.simps char_tokenizer_def)
  have b: "\<not> under_budget id id
         \<lparr>live_window = ([] :: string ChatMessage list),
          condensation = \<lparr>current_memory = [''<message role=MessageRole.USER>\<newline>hi\<newline></message>''],
             token_limit = 50000, tokenizer = char_tokenizer\<rparr>,
          chat_history_token_ratio = - 1\<rparr>"
    by (simp add: under_budget_def window_cost_def threshold_def)
  have never: "aput id id \<lparr>current_memory = [], token_limit = - 1, tokenizer = char_tokenizer\<rparr>
      [chat_message USER ''hi''] = None"
    unfolding aput_def
    by (rule aput_evict_total_negative) (simp_all add: char_tokenizer_def aput_append_memory)
  have c: "flush id id (foldl append_turns
       \<lparr>live_window = [],
        condensation = \<lparr>current_memory = [], token_limit = - 1, tokenizer = char_tokenizer\<rparr>,
        chat_history_token_ratio = 1 / 10000\<rparr>
       [[chat_message USER ''hi'']])
     = None"
    using never
    by (simp add: flush_def append_turns_def threshold_def chat_message_def memory_str_def
        char_tokenizer_def)
  have d: "flush id id (foldl append_turns
       \<lparr>live_window = [],
        condensation = \<lparr>current_memory = [], token_limit = 50000, tokenizer = failing_tokenizer\<rparr>,
        chat_history_token_ratio = 1 / 10000\<rparr>
       [[chat_message USER ''hi'']])
     = Some (Inl (TokenizationError ''<message role=MessageRole.USER>\<newline>hi\<newline></message>''),
         \<lparr>live_window = [chat_message USER ''hi''],
          condensation = \<lparr>current_memory = [], token_limit = 50000, tokenizer = failing_tokenizer\<rparr>,
          chat_history_token_ratio = 1 / 10000\<rparr>)"
    by (simp add: flush_def append_turns_def threshold_def chat_message_def memory_str_def
        failing_tokenizer_def)
  from a b c d show ?thesis by blast
qed

text \<open>
  Claim C8, amended. After any sequence of appends, a flush that returns leaves the live
  window empty or with a total token cost at or below
  \<open>chat_history_token_ratio \<times> token_limit\<close>, and it leaves the session under budget
  whenever that threshold is not negative. When the tokenizer never fails and
  \<open>token_limit\<close> is not negative the flush does return, and when the ratio is not
  negative either it returns with the session under budget.
\<close>

theorem flush_restores_budget:
  "(flush kr vr (foldl append_turns s0 batches) = Some (Inr (), s') \<longrightarrow>
      (live_window s' = [] \<or> under_budget kr vr s') \<and>
      (0 \<le> threshold s' \<longrightarrow> under_budget kr vr s')) \<and>
   ((\<forall>m. \<exists>n. tokenizer (condensation s0) m = Inr n) \<and> 0 \<le> token_limit (condensation s0) \<longrightarrow>
      (\<exists>s''. flush kr vr (foldl append_turns s0 batches) = Some (Inr (), s'') \<and>
             (0 \<le> chat_history_token_ratio s0 \<longrightarrow> under_budget kr vr s'')))"
proof -
  let ?s = "foldl append_turns s0 batches"
  have a: "(live_window t = [] \<or> under_budget kr vr t) \<and>
           (0 \<le> threshold t \<longrightarrow> under_budget kr vr t)"
    if fl: "flush kr vr ?s = Some (Inr (), t)" for t
  proof -
    from flush_post [OF fl] have d: "live_window t = [] \<or> under_budget kr vr t" by simp
    with under_budget_empty [of t kr vr] show ?thesis by blast
  qed
  have b: "\<exists>s''. flush kr vr ?s = Some (Inr (), s'') \<and>
             (0 \<le> chat_history_token_ratio s0 \<longrightarrow> under_budget kr vr s'')"
    if h: "(\<forall>m. \<exists>n. tokenizer (condensation s0) m = Inr n) \<and> 0 \<le> token_limit (condensation s0)"
  proof -
    from h flush_returns [of ?s kr vr] foldl_append_turns_fields [of s0 batches]
    obtain s'' where fl: "flush kr vr ?s = Some (Inr (), s'')" by auto
    from flush_post [OF fl] foldl_append_turns_fields [of s0 batches]
    have "threshold s'' = chat_history_token_ratio s0 * of_int (token_limit (condensation s0))"
      by (simp add: threshold_def)
    with h have "0 \<le> chat_history_token_ratio s0 \<Longrightarrow> 0 \<le> threshold s''" by simp
    with a [OF fl] fl show ?thesis by blast
  qed
  from a [of s'] b show ?thesis by blast
qed

theorem flush_restores_budget_witness:
  "flush id id (foldl append_turns
       \<lparr>live_window = [],
        condensation = \<lparr>current_memory = [], token_limit = 100, tokenizer = char_tokenizer\<rparr>,
        chat_history_token_ratio = 1 / 2\<rparr>
       [[chat_message USER ''one''], [chat_message USER ''two'']])
     = Some (Inr (),
         \<lparr>live_window = [chat_message USER ''two''],
          condensation = \<lparr>current_memory = [''<message role=MessageRole.USER>\<newline>one\<newline></message>''],
             token_limit = 100, tokenizer = char_tokenizer\<rparr>,
          chat_history_token_ratio = 1 / 2\<rparr>) \<and>
   (\<forall>m. \<exists>n. char_tokenizer m = Inr n) \<and> (0::int) \<le> 100 \<and>
   (0::rat) \<le> 1 / 2 * 100 \<and>
   window_cost id id
         \<lparr>live_window = [chat_message USER ''two''] :: string ChatMessage list,
          condensation = \<lparr>current_memory = [''<message role=MessageRole.USER>\<newline>one\<newline></message>''],
             token_limit = 100, tokenizer = char_tokenizer\<rparr>,
          chat_history_token_ratio = 1 / 2\<rparr> = Inr 46 \<and>
   under_budget id id
         \<lparr>live_window = [chat_message USER ''two''] :: string ChatMessage list,
          condensation = \<lparr>current_memory = [''<message role=MessageRole.USER>\<newline>one\<newline></message>''],
             token_limit = 100, tokenizer = char_tokenizer\<rparr>,
          chat_history_token_ratio = 1 / 2\<rparr>"
proof -
  let ?s0 = "\<lparr>live_window = ([] :: string ChatMessage list),
        condensation = \<lparr>current_memory = [], token_limit = 100, tokenizer = char_tokenizer\<rparr>,
        chat_history_token_ratio = 1 / 2\<rparr>"
  let ?s' = "\<lparr>live_window = [chat_message USER ''two''] :: string ChatMessage list,
          condensation = \<lparr>current_memory = [''<message role=MessageRole.USER>\<newline>one\<newline></message>''],
             token_limit = 100, tokenizer = char_tokenizer\<rparr>,
          chat_history_token_ratio = 1 / 2\<rparr>"
  let ?batches = "[[chat_message USER ''one''], [chat_message USER ''two'']] :: string ChatMessage list list"
  have h: "flush id id (foldl append_turns ?s0 ?batches) = Some (Inr (), ?s')"
    by (simp add: flush_def append_turns_def threshold_def chat_message_def memory_str_def
        aput_def aput_evict.simps char_tokenizer_def)
  have total: "\<forall>m. \<exists>n. char_tokenizer m = Inr n" by (simp add: char_tokenizer_def)
  have thr: "0 \<le> threshold ?s'" by (simp add: threshold_def)
  have cost: "window_cost id id ?s' = Inr 46"
    by (simp add: window_cost_def chat_message_def memory_str_def char_tokenizer_def)
  from flush_restores_budget [of id id ?s0 ?batches ?s'] h thr
  have "under_budget id id ?s'" by blast
  with h total cost show ?thesis by simp
qed

lemma rendered_initial_messages:
  "map (memory_str kr vr) initial_messages =
     [''<message role=MessageRole.USER>\<newline>Hello! My name is Logan\<newline></message>'',
      ''<message role=MessageRole.ASSISTANT>\<newline>Hello! How can I help you?\<newline></message>'',
      ''<message role=MessageRole.USER>\<newline>What is the capital of France?\<newline></message>'',
      ''<message role=MessageRole.ASSISTANT>\<newline>The capital of France is Paris\<newline></message>'']"
  by (simp add: initial_messages_def chat_message_def memory_str_def)

lemma flush_split_all:
  fixes tok :: "string \<Rightarrow> error + nat" and thr :: rat
  assumes "\<forall>m \<in> set (map rendered ts). tok m = Inr (count m)"
    and "ts \<noteq> []" and "thr < of_nat (count (rendered (last ts)))"
  shows "flush_split rendered tok thr ts = Inr (ts, [])"
  using assms
proof (induction ts)
  case Nil
  then show ?case by simp
next
  case (Cons t ts)
  have ml: "message_length tok (map rendered xs) = Inr (sum_list (map count (map rendered xs)))"
    if "\<forall>m \<in> set (map rendered xs). tok m = Inr (count m)" for xs
    using that by (induction xs) simp_all
  have ge: "count (rendered (last (t # ts))) \<le> sum_list (map count (map rendered (t # ts)))"
    by (rule member_le_sum_list) simp_all
  from Cons.prems(3) ge
  have above: "\<not> of_nat (sum_list (map count (map rendered (t # ts)))) \<le> thr"
    by (metis (no_types, lifting) less_le_not_le of_nat_le_iff order_trans)
  show ?case
  proof (cases "ts = []")
    case True
    with ml [OF Cons.prems(1)] above show ?thesis by simp
  next
    case False
    with Cons have "flush_split rendered tok thr ts = Inr (ts, [])" by simp
    with ml [OF Cons.prems(1)] above show ?thesis by simp
  qed
qed

text \<open>
  Claim C7. Take an empty block, a tokenizer that counts the four rendered strings of
  \<open>initial_messages\<close>, a \<open>token_limit\<close> their total fits in, and a ratio so small that
  the threshold is below the cost of the last turn alone. Appending the four turns and
  flushing moves all four into the block: \<open>_aput\<close> of the four messages returns, the live
  window is empty, \<open>_aget\<close> gives the four rendered strings joined by newlines in the order
  of the appends (the text recorded in the notebook's output), and \<open>render\<close> gives exactly
  one synthetic turn with that text and no live turn.
\<close>

theorem initial_messages_round_trip:
  fixes vr :: "'v \<Rightarrow> string"
  assumes "current_memory b = []"
    and "\<forall>m \<in> set (map (memory_str kr vr) initial_messages). tokenizer b m = Inr (count m)"
    and "int (sum_list (map count (map (memory_str kr vr) initial_messages))) \<le> token_limit b"
    and "ratio * of_int (token_limit b) < of_nat (count (memory_str kr vr (last initial_messages)))"
  shows "\<exists>s'. flush kr vr (append_turns
              \<lparr>live_window = [], condensation = b, chat_history_token_ratio = ratio\<rparr>
              initial_messages) = Some (Inr (), s') \<and>
           aput kr vr b initial_messages = Some (Inr (), condensation s') \<and>
           live_window s' = [] \<and>
           fst (aget (condensation s')) =
             ''<message role=MessageRole.USER>\<newline>Hello! My name is Logan\<newline></message>\<newline><message role=MessageRole.ASSISTANT>\<newline>Hello! How can I help you?\<newline></message>\<newline><message role=MessageRole.USER>\<newline>What is the capital of France?\<newline></message>\<newline><message role=MessageRole.ASSISTANT>\<newline>The capital of France is Paris\<newline></message>'' \<and>
           render s' = [Condensed (fst (aget (condensation s')))]"
proof -
  let ?s = "append_turns \<lparr>live_window = [], condensation = b, chat_history_token_ratio = ratio\<rparr>
              (initial_messages :: 'v ChatMessage list)"
  let ?all = "map (memory_str kr vr) (initial_messages :: 'v ChatMessage list)"
  let ?b' = "b\<lparr>current_memory := ?all\<rparr>"
  have ne: "(initial_messages :: 'v ChatMessage list) \<noteq> []" by (simp add: initial_messages_def)
  from assms(2) have "message_length (tokenizer b) ?all = Inr (sum_list (map count ?all))"
    by (simp add: rendered_initial_messages)
  with assms(1,3) have "evict_steps 0 (aput_append kr vr b initial_messages) = Some ((Inr (), ?b'), [])"
    by (simp add: aput_append_memory evict_steps_stop)
  from evict_steps_sound [OF this]
  have ap: "aput kr vr b initial_messages = Some (Inr (), ?b')" by (simp add: aput_def)
  from flush_split_all [OF assms(2) ne, of "threshold ?s"] assms(4)
  have sp: "flush_split (memory_str kr vr) (tokenizer b) (threshold ?s) initial_messages
              = Inr (initial_messages, [])"
    by (simp add: threshold_def append_turns_def)
  let ?s' = "?s\<lparr>live_window := [], condensation := ?b'\<rparr>"
  from sp ap have fl: "flush kr vr ?s = Some (Inr (), ?s')"
    by (simp add: flush_def append_turns_def)
  have joined: "fst (aget (condensation ?s')) =
      ''<message role=MessageRole.USER>\<newline>Hello! My name is Logan\<newline></message>\<newline><message role=MessageRole.ASSISTANT>\<newline>Hello! How can I help you?\<newline></message>\<newline><message role=MessageRole.USER>\<newline>What is the capital of France?\<newline></message>\<newline><message role=MessageRole.ASSISTANT>\<newline>The capital of France is Paris\<newline></message>''"
    by (simp add: aget_def rendered_initial_messages)
  have rn: "render ?s' = [Condensed (fst (aget (condensation ?s')))]"
    unfolding render_def Let_def joined by simp
  from fl ap joined rn show ?thesis by (intro exI [of _ ?s']) simp
qed

theorem initial_messages_round_trip_witness:
  "current_memory \<lparr>current_memory = [], token_limit = 50000, tokenizer = char_tokenizer\<rparr> = [] \<and>
   map char_tokenizer (map (memory_str id id) (initial_messages :: string ChatMessage list)) =
     map (Inr \<circ> length) (map (memory_str id id) (initial_messages :: string ChatMessage list)) \<and>
   int (sum_list (map length (map (memory_str id id) (initial_messages :: string ChatMessage list))))
     \<le> 50000 \<and>
   (1 / 10000 :: rat) * of_int 50000
     < of_nat (length (memory_str id id (last (initial_messages :: string ChatMessage list)))) \<and>
   (\<exists>s'. flush id id (append_turns
              \<lparr>live_window = [],
               condensation = \<lparr>current_memory = [], token_limit = 50000, tokenizer = char_tokenizer\<rparr>,
               chat_history_token_ratio = 1 / 10000\<rparr>
              (initial_messages :: string ChatMessage list)) = Some (Inr (), s') \<and>
         live_window s' = [] \<and>
         render s' = [Condensed
             ''<message role=MessageRole.USER>\<newline>Hello! My name is Logan\<newline></message>\<newline><message role=MessageRole.ASSISTANT>\<newline>Hello! How can I help you?\<newline></message>\<newline><message role=MessageRole.USER>\<newline>What is the capital of France?\<newline></message>\<newline><message role=MessageRole.ASSISTANT>\<newline>The capital of France is Paris\<newline></message>''])"
proof -
  let ?b = "\<lparr>current_memory = [], token_limit = 50000, tokenizer = char_tokenizer\<rparr>"
  have h1: "current_memory ?b = []" by simp
  have h2: "\<forall>m \<in> set (map (memory_str id id) (initial_messages :: string ChatMessage list)).
       tokenizer ?b m = Inr (length m)"
    by (simp add: char_tokenizer_def)
  have h3: "int (sum_list (map length (map (memory_str id id) (initial_messages :: string ChatMessage list))))
     \<le> token_limit ?b"
    by (simp add: rendered_initial_messages)
  have h4: "(1 / 10000 :: rat) * of_int (token_limit ?b)
     < of_nat (length (memory_str id id (last (initial_messages :: string ChatMessage list))))"
    by (simp add: initial_messages_def chat_message_def memory_str_def)
  let ?s = "append_turns
              \<lparr>live_window = [], condensation = ?b, chat_history_token_ratio = 1 / 10000\<rparr>
              (initial_messages :: string ChatMessage list)"
  from initial_messages_round_trip [OF h1 h2 h3 h4] obtain s' where
    a: "flush id id ?s = Some (Inr (), s')" and b: "live_window s' = []"
    and c: "fst (aget (condensation s')) = ''<message role=MessageRole.USER>\<newline>Hello! My name is Logan\<newline></message>\<newline><message role=MessageRole.ASSISTANT>\<newline>Hello! How can I help you?\<newline></message>\<newline><message role=MessageRole.USER>\<newline>What is the capital of France?\<newline></message>\<newline><message role=MessageRole.ASSISTANT>\<newline>The capital of France is Paris\<newline></message>''"
    and d: "render s' = [Condensed (fst (aget (condensation s')))]"
    by blast
  from c d have "render s' = [Condensed ''<message role=MessageRole.USER>\<newline>Hello! My name is Logan\<newline></message>\<newline><message role=MessageRole.ASSISTANT>\<newline>Hello! How can I help you?\<newline></message>\<newline><message role=MessageRole.USER>\<newline>What is the capital of France?\<newline></message>\<newline><message role=MessageRole.ASSISTANT>\<newline>The capital of France is Paris\<newline></message>'']"
    by (simp only:)
  with a b have r: "\<exists>s'. flush id id ?s = Some (Inr (), s') \<and> live_window s' = [] \<and>
         render s' = [Condensed ''<message role=MessageRole.USER>\<newline>Hello! My name is Logan\<newline></message>\<newline><message role=MessageRole.ASSISTANT>\<newline>Hello! How can I help you?\<newline></message>\<newline><message role=MessageRole.USER>\<newline>What is the capital of France?\<newline></message>\<newline><message role=MessageRole.ASSISTANT>\<newline>The capital of France is Paris\<newline></message>'']"
    by blast
  have h2': "map char_tokenizer (map (memory_str id id) (initial_messages :: string ChatMessage list)) =
     map (Inr \<circ> length) (map (memory_str id id) (initial_messages :: string ChatMessage list))"
    by (simp add: char_tokenizer_def)
  from h1 h2' h3 h4 r show ?thesis by simp
qed

end
